theory Spec2Isabelle
  imports Complex_Main "HOL-Library.Sublist" "HOL-Library.Char_ord" "HOL-Library.List_Lexorder"
begin

section \<open>Data model\<close>

text \<open>
  A market value is a Python float as \<open>float()\<close> reads it from the CSV text: a finite
  binary fraction (a rational number), an infinity, or NaN (the texts \<open>inf\<close>, \<open>-inf\<close> and
  \<open>nan\<close> parse). The integer 0 that \<open>load_data\<close> stores for an empty or unparseable text
  compares as the float 0.
\<close>

datatype pyfloat = Finite rat | PosInf | NegInf | NaN

text \<open>\<open>a < b\<close> on floats: false whenever one side is NaN.\<close>

fun fl_lt :: "pyfloat \<Rightarrow> pyfloat \<Rightarrow> bool" where
  "fl_lt NaN b = False"
| "fl_lt a NaN = False"
| "fl_lt (Finite a) (Finite b) = (a < b)"
| "fl_lt (Finite a) PosInf = True"
| "fl_lt (Finite a) NegInf = False"
| "fl_lt PosInf b = False"
| "fl_lt NegInf NegInf = False"
| "fl_lt NegInf b = True"

text \<open>\<open>a <= b\<close>, \<open>a > b\<close> and \<open>a >= b\<close> on floats: false whenever one side is NaN.\<close>

definition fl_le :: "pyfloat \<Rightarrow> pyfloat \<Rightarrow> bool" where
  "fl_le a b = (a \<noteq> NaN \<and> b \<noteq> NaN \<and> \<not> fl_lt b a)"

definition fl_gt :: "pyfloat \<Rightarrow> pyfloat \<Rightarrow> bool" where
  "fl_gt a b = fl_lt b a"

definition fl_ge :: "pyfloat \<Rightarrow> pyfloat \<Rightarrow> bool" where
  "fl_ge a b = fl_le b a"

text \<open>
  A card is one row of the CSV file as \<open>CardSearcher.load_data\<close> leaves it.
  \<open>market_value\<close> is a float and \<open>year\<close> an integer (0 when the text is empty or
  unparseable). Every other column is a text, or \<open>None\<close> where the row of the file is
  shorter than the header (\<open>csv.DictReader\<close> fills the missing columns with \<open>None\<close>).
  A text is represented by the bytes of its UTF-8 encoding: equality, emptiness, the
  substring test and the ordering of Python strings are those of the encodings. The CSV
  column \<open>set\<close> is the field \<open>card_set\<close>.
\<close>

record card =
  collx_id :: "string option"
  name :: "string option"
  team :: "string option"
  year :: int
  brand :: "string option"
  card_set :: "string option"
  number :: "string option"
  condition :: "string option"
  flags :: "string option"
  market_value :: pyfloat
  front_image :: "string option"
  back_image :: "string option"
  added :: "string option"

text \<open>
  The exception of the code: \<open>None.lower()\<close> raises AttributeError. A function that can
  raise returns \<open>Inl\<close> of the error or \<open>Inr\<close> of its result.
\<close>

datatype error = AttributeError

definition and_then :: "error + 'a \<Rightarrow> ('a \<Rightarrow> error + 'b) \<Rightarrow> error + 'b" where
  "and_then m f = (case m of Inl e \<Rightarrow> Inl e | Inr x \<Rightarrow> f x)"

section \<open>Python primitives used by the source\<close>

text \<open>
  \<open>str.lower()\<close> follows the case tables of Unicode, which are not part of the
  repository: the functions that call it take it as their first argument \<open>str_lower\<close>.
  \<open>int()\<close> on a text is taken in the same way, as \<open>py_int\<close>, with \<open>None\<close> where it
  raises ValueError.
\<close>

text \<open>\<open>a in b\<close> on strings: \<open>a\<close> occurs in \<open>b\<close> as a contiguous substring.\<close>

definition str_in :: "string \<Rightarrow> string \<Rightarrow> bool" where
  "str_in a b = sublist a b"

text \<open>Truthiness of a value that may be \<open>None\<close>: integers, floats (NaN is true), booleans.\<close>

fun truthy_int :: "int option \<Rightarrow> bool" where
  "truthy_int None = False"
| "truthy_int (Some n) = (n \<noteq> 0)"

fun truthy_num :: "pyfloat option \<Rightarrow> bool" where
  "truthy_num None = False"
| "truthy_num (Some v) = (v \<noteq> Finite 0)"

fun truthy_bool :: "bool option \<Rightarrow> bool" where
  "truthy_bool None = False"
| "truthy_bool (Some b) = b"

text \<open>
  The slice \<open>xs[:n]\<close>: the first \<open>n\<close> elements when \<open>n\<close> is not negative, and all
  but the last \<open>-n\<close> elements when it is.
\<close>

definition slice_to :: "'a list \<Rightarrow> int \<Rightarrow> 'a list" where
  "slice_to xs n = (if 0 \<le> n then take (nat n) xs else take (length xs - nat (- n)) xs)"

text \<open>
  A loop \<open>for x in xs: if test(x): results.append(x)\<close> whose test can raise: the first
  error ends it.
\<close>

fun filter_raise :: "('a \<Rightarrow> error + bool) \<Rightarrow> 'a list \<Rightarrow> error + 'a list" where
  "filter_raise test [] = Inr []"
| "filter_raise test (x # xs) =
     (case test x of
        Inl e \<Rightarrow> Inl e
      | Inr keep \<Rightarrow>
          (case filter_raise test xs of
             Inl e \<Rightarrow> Inl e
           | Inr results \<Rightarrow> Inr (if keep then x # results else results)))"

section \<open>The list sort of Python\<close>

text \<open>
  \<open>list.sort(key=..., reverse=...)\<close> computes the keys first and then sorts the pairs
  of key and element, comparing keys with \<open><\<close> only. The definitions follow the list
  sort of CPython 3.11 as it runs on a list of fewer than 64 elements: with \<open>reverse\<close> the list is
  reversed before and after; \<open>count_run\<close> takes the longest prefix that is ascending
  (no element below its predecessor) or strictly descending, and reverses a descending
  one; \<open>binarysort\<close> then inserts each remaining element into the sorted prefix at the
  place a binary search finds. On a longer list CPython cuts several such runs and merges
  them; when the keys are totally ordered the result is the same list, the stable sort
  (lemmas \<open>list_sort_stable\<close> and \<open>list_sort_sorted\<close> below).
\<close>

fun take_asc :: "('k \<Rightarrow> 'k \<Rightarrow> bool) \<Rightarrow> 'k \<Rightarrow> ('k \<times> 'a) list \<Rightarrow> ('k \<times> 'a) list \<times> ('k \<times> 'a) list" where
  "take_asc lt prev [] = ([], [])"
| "take_asc lt prev (x # xs) =
     (if lt (fst x) prev then ([], x # xs)
      else (case take_asc lt (fst x) xs of (run, rest) \<Rightarrow> (x # run, rest)))"

fun take_desc :: "('k \<Rightarrow> 'k \<Rightarrow> bool) \<Rightarrow> 'k \<Rightarrow> ('k \<times> 'a) list \<Rightarrow> ('k \<times> 'a) list \<times> ('k \<times> 'a) list" where
  "take_desc lt prev [] = ([], [])"
| "take_desc lt prev (x # xs) =
     (if lt (fst x) prev then (case take_desc lt (fst x) xs of (run, rest) \<Rightarrow> (x # run, rest))
      else ([], x # xs))"

fun count_run :: "('k \<Rightarrow> 'k \<Rightarrow> bool) \<Rightarrow> ('k \<times> 'a) list \<Rightarrow> ('k \<times> 'a) list \<times> ('k \<times> 'a) list" where
  "count_run lt [] = ([], [])"
| "count_run lt [x] = ([x], [])"
| "count_run lt (x # y # xs) =
     (if lt (fst y) (fst x) then
        (case take_desc lt (fst y) xs of (run, rest) \<Rightarrow> (rev (x # y # run), rest))
      else
        (case take_asc lt (fst y) xs of (run, rest) \<Rightarrow> (x # y # run, rest)))"

text \<open>
  The binary search of \<open>binarysort\<close>: the place of \<open>pivot\<close> among the keys \<open>ks\<close> between
  \<open>l\<close> and \<open>r\<close>.
\<close>

function bisect :: "('k \<Rightarrow> 'k \<Rightarrow> bool) \<Rightarrow> 'k \<Rightarrow> 'k list \<Rightarrow> nat \<Rightarrow> nat \<Rightarrow> nat" where
  "bisect lt pivot ks l r =
     (if l < r then
        (let p = l + (r - l) div 2 in
         if lt pivot (ks ! p) then bisect lt pivot ks l p else bisect lt pivot ks (p + 1) r)
      else l)"
  by pat_completeness auto
termination
  by (relation "measure (\<lambda>(lt, pivot, ks, l, r). r - l)") auto

declare bisect.simps [simp del]

fun binarysort :: "('k \<Rightarrow> 'k \<Rightarrow> bool) \<Rightarrow> ('k \<times> 'a) list \<Rightarrow> ('k \<times> 'a) list \<Rightarrow> ('k \<times> 'a) list" where
  "binarysort lt done [] = done"
| "binarysort lt done (x # xs) =
     (let l = bisect lt (fst x) (map fst done) 0 (length done)
      in binarysort lt (take l done @ [x] @ drop l done) xs)"

definition list_sort :: "('k \<Rightarrow> 'k \<Rightarrow> bool) \<Rightarrow> bool \<Rightarrow> ('k \<times> 'a) list \<Rightarrow> ('k \<times> 'a) list" where
  "list_sort lt reverse kvs =
     (let xs = (if reverse then rev kvs else kvs);
          out = (case count_run lt xs of (run, rest) \<Rightarrow> binarysort lt run rest)
      in if reverse then rev out else out)"

section \<open>card\_search.py: the predicates of CardSearcher\<close>

definition search_by_name ::
  "(string \<Rightarrow> string) \<Rightarrow> card list \<Rightarrow> string \<Rightarrow> bool \<Rightarrow> error + card list" where
  "search_by_name str_lower cards nm exact =
     (let name_lower = str_lower nm in
      filter_raise
        (\<lambda>card. case name card of
                  None \<Rightarrow> Inl AttributeError
                | Some n \<Rightarrow>
                    (let card_name = str_lower n in
                     Inr (if exact then card_name = name_lower else str_in name_lower card_name)))
        cards)"

definition search_by_team :: "(string \<Rightarrow> string) \<Rightarrow> card list \<Rightarrow> string \<Rightarrow> error + card list" where
  "search_by_team str_lower cards tm =
     (let team_lower = str_lower tm in
      filter_raise
        (\<lambda>card. case team card of
                  None \<Rightarrow> Inl AttributeError
                | Some t \<Rightarrow> Inr (str_in team_lower (str_lower t)))
        cards)"

text \<open>
  The body of the loop of \<open>search_by_year\<close>: whether the card is appended. With an exact
  year the range is not looked at; with no parameter at all nothing is appended; a bound
  that is \<open>None\<close> or 0 is no bound.
\<close>

definition year_keeps :: "int option \<Rightarrow> int option \<Rightarrow> int option \<Rightarrow> card \<Rightarrow> bool" where
  "year_keeps yr year_min year_max c =
     (let card_year = year c in
      case yr of
        Some y \<Rightarrow> card_year = y
      | None \<Rightarrow>
          if year_min \<noteq> None \<or> year_max \<noteq> None then
            if (case year_min of Some lo \<Rightarrow> lo \<noteq> 0 \<and> card_year < lo | None \<Rightarrow> False) then False
            else if (case year_max of Some hi \<Rightarrow> hi \<noteq> 0 \<and> card_year > hi | None \<Rightarrow> False) then False
            else True
          else False)"

definition search_by_year :: "card list \<Rightarrow> int option \<Rightarrow> int option \<Rightarrow> int option \<Rightarrow> card list" where
  "search_by_year cards yr year_min year_max = filter (year_keeps yr year_min year_max) cards"

definition search_by_brand :: "(string \<Rightarrow> string) \<Rightarrow> card list \<Rightarrow> string \<Rightarrow> error + card list" where
  "search_by_brand str_lower cards br =
     (let brand_lower = str_lower br in
      filter_raise
        (\<lambda>card. case brand card of
                  None \<Rightarrow> Inl AttributeError
                | Some b \<Rightarrow> Inr (str_in brand_lower (str_lower b)))
        cards)"

definition value_keeps :: "pyfloat option \<Rightarrow> pyfloat option \<Rightarrow> card \<Rightarrow> bool" where
  "value_keeps min_value max_value c =
     (let v = market_value c in
      if (case min_value of Some lo \<Rightarrow> fl_lt v lo | None \<Rightarrow> False) then False
      else if (case max_value of Some hi \<Rightarrow> fl_gt v hi | None \<Rightarrow> False) then False
      else True)"

definition search_by_value :: "card list \<Rightarrow> pyfloat option \<Rightarrow> pyfloat option \<Rightarrow> card list" where
  "search_by_value cards min_value max_value = filter (value_keeps min_value max_value) cards"

text \<open>
  \<open>card['condition'] and condition_lower in card['condition'].lower()\<close>: a condition
  that is \<open>None\<close> or empty is false before \<open>lower\<close> is called.
\<close>

definition search_by_condition :: "(string \<Rightarrow> string) \<Rightarrow> card list \<Rightarrow> string \<Rightarrow> card list" where
  "search_by_condition str_lower cards cond =
     (let condition_lower = str_lower cond in
      filter (\<lambda>card. case condition card of
                       None \<Rightarrow> False
                     | Some s \<Rightarrow> s \<noteq> [] \<and> str_in condition_lower (str_lower s)) cards)"

definition search_rookie_cards :: "card list \<Rightarrow> card list" where
  "search_rookie_cards cards =
     filter (\<lambda>card. case flags card of None \<Rightarrow> False | Some f \<Rightarrow> f \<noteq> [] \<and> str_in ''RC'' f) cards"

definition search_high_value_cards :: "card list \<Rightarrow> pyfloat \<Rightarrow> card list" where
  "search_high_value_cards cards threshold =
     filter (\<lambda>card. fl_ge (market_value card) threshold) cards"

section \<open>card\_search.py: advanced\_search, sort\_results, format\_results\<close>

text \<open>
  The keyword arguments of \<open>advanced_search\<close>: a key that is missing and a key whose
  value is \<open>None\<close> both read as \<open>None\<close> through \<open>kwargs.get\<close>.
\<close>

record criteria =
  kw_name :: "string option"
  kw_exact_name :: "bool option"
  kw_team :: "string option"
  kw_year :: "int option"
  kw_year_min :: "int option"
  kw_year_max :: "int option"
  kw_brand :: "string option"
  kw_min_value :: "pyfloat option"
  kw_max_value :: "pyfloat option"
  kw_condition :: "string option"
  kw_rookie_only :: "bool option"

text \<open>
  \<open>[card for card in results if card in other]\<close>. Membership in a Python list is by
  identity or equality; \<open>other\<close> holds cards of the same collection selected by a test
  on their fields, so that a card is in it exactly when it passes the test.
\<close>

definition keep_in :: "card list \<Rightarrow> card list \<Rightarrow> card list" where
  "keep_in results other = filter (\<lambda>card. card \<in> set other) results"

definition advanced_search :: "(string \<Rightarrow> string) \<Rightarrow> card list \<Rightarrow> criteria \<Rightarrow> error + card list" where
  "advanced_search str_lower cards kwargs =
     and_then (Inr cards)
       (\<lambda>results.
     and_then
       (case kw_name kwargs of
          Some nm \<Rightarrow>
            if nm \<noteq> [] then
              and_then (search_by_name str_lower cards nm (truthy_bool (kw_exact_name kwargs)))
                (\<lambda>name_results. Inr (keep_in results name_results))
            else Inr results
        | None \<Rightarrow> Inr results)
       (\<lambda>results.
     and_then
       (case kw_team kwargs of
          Some tm \<Rightarrow>
            if tm \<noteq> [] then
              and_then (search_by_team str_lower cards tm)
                (\<lambda>team_results. Inr (keep_in results team_results))
            else Inr results
        | None \<Rightarrow> Inr results)
       (\<lambda>results.
     and_then
       (Inr (if truthy_int (kw_year kwargs) then
               keep_in results (search_by_year cards (kw_year kwargs) None None)
             else results))
       (\<lambda>results.
     and_then
       (Inr (if truthy_int (kw_year_min kwargs) \<or> truthy_int (kw_year_max kwargs) then
               keep_in results
                 (search_by_year cards None (kw_year_min kwargs) (kw_year_max kwargs))
             else results))
       (\<lambda>results.
     and_then
       (case kw_brand kwargs of
          Some br \<Rightarrow>
            if br \<noteq> [] then
              and_then (search_by_brand str_lower cards br)
                (\<lambda>brand_results. Inr (keep_in results brand_results))
            else Inr results
        | None \<Rightarrow> Inr results)
       (\<lambda>results.
     and_then
       (Inr (if truthy_num (kw_min_value kwargs) \<or> truthy_num (kw_max_value kwargs) then
               keep_in results
                 (search_by_value cards (kw_min_value kwargs) (kw_max_value kwargs))
             else results))
       (\<lambda>results.
     and_then
       (Inr (case kw_condition kwargs of
               Some cond \<Rightarrow>
                 if cond \<noteq> [] then keep_in results (search_by_condition str_lower cards cond)
                 else results
             | None \<Rightarrow> results))
       (\<lambda>results.
          Inr (if truthy_bool (kw_rookie_only kwargs) then
                 keep_in results (search_rookie_cards cards)
               else results)))))))))"

text \<open>
  The keys \<open>x[field].lower()\<close> of a sort by a text column, paired with their cards: a
  field that is \<open>None\<close> raises.
\<close>

fun lower_keys ::
  "(string \<Rightarrow> string) \<Rightarrow> (card \<Rightarrow> string option) \<Rightarrow> card list \<Rightarrow> error + (string \<times> card) list" where
  "lower_keys str_lower field [] = Inr []"
| "lower_keys str_lower field (x # xs) =
     (case field x of
        None \<Rightarrow> Inl AttributeError
      | Some s \<Rightarrow>
          (case lower_keys str_lower field xs of
             Inl e \<Rightarrow> Inl e
           | Inr kvs \<Rightarrow> Inr ((str_lower s, x) # kvs)))"

definition sort_results ::
  "(string \<Rightarrow> string) \<Rightarrow> card list \<Rightarrow> string \<Rightarrow> bool \<Rightarrow> error + card list" where
  "sort_results str_lower results sort_by descending =
     (if sort_by = ''value'' then
        Inr (map snd (list_sort fl_lt descending (map (\<lambda>x. (market_value x, x)) results)))
      else if sort_by = ''year'' then
        Inr (map snd (list_sort (\<lambda>a b. a < b) descending (map (\<lambda>x. (year x, x)) results)))
      else if sort_by = ''name'' then
        and_then (lower_keys str_lower name results)
          (\<lambda>kvs. Inr (map snd (list_sort (\<lambda>a b. a < b) descending kvs)))
      else if sort_by = ''team'' then
        and_then (lower_keys str_lower team results)
          (\<lambda>kvs. Inr (map snd (list_sort (\<lambda>a b. a < b) descending kvs)))
      else if sort_by = ''brand'' then
        and_then (lower_keys str_lower brand results)
          (\<lambda>kvs. Inr (map snd (list_sort (\<lambda>a b. a < b) descending kvs)))
      else Inr results)"

text \<open>
  The first statement of \<open>format_results\<close>: \<open>if limit: results = results[:limit]\<close>. The
  rest of the function renders the sequence this returns.
\<close>

definition format_results_limit :: "card list \<Rightarrow> int option \<Rightarrow> card list" where
  "format_results_limit results limit =
     (case limit of
        Some n \<Rightarrow> if n \<noteq> 0 then slice_to results n else results
      | None \<Rightarrow> results)"

section \<open>batch\_operations.py\<close>

text \<open>
  The body of the loop of \<open>select_cards_for_sale\<close>: whether the card is a candidate.
  Flags that are \<open>None\<close> or empty are false before the substring test, and a condition
  that is \<open>None\<close> is not in the list.
\<close>

definition sale_candidate :: "pyfloat \<Rightarrow> bool \<Rightarrow> card \<Rightarrow> bool" where
  "sale_candidate min_value exclude_favorites c =
     (if fl_lt (market_value c) min_value then False
      else if exclude_favorites \<and> fl_gt (market_value c) (Finite 500) then False
      else if exclude_favorites
                \<and> (case flags c of None \<Rightarrow> False | Some f \<Rightarrow> f \<noteq> [] \<and> str_in ''RC'' f)
                \<and> fl_gt (market_value c) (Finite 100) then False
      else if exclude_favorites \<and> year c \<le> 1980 \<and> fl_gt (market_value c) (Finite 50) then False
      else condition c \<in> set [Some ''Mint'', Some ''Near Mint'', Some ''Excellent''])"

definition select_cards_for_sale :: "card list \<Rightarrow> pyfloat \<Rightarrow> int \<Rightarrow> bool \<Rightarrow> card list" where
  "select_cards_for_sale cards min_value max_cards exclude_favorites =
     (let candidates = filter (sale_candidate min_value exclude_favorites) cards;
          candidates = map snd (list_sort fl_lt True (map (\<lambda>x. (market_value x, x)) candidates))
      in slice_to candidates max_cards)"

definition categorize_value :: "pyfloat \<Rightarrow> string" where
  "categorize_value v =
     (if fl_ge v (Finite 100) then ''High Value ($100+)''
      else if fl_ge v (Finite 20) then ''Medium Value ($20-$99)''
      else if fl_ge v (Finite 5) then ''Low Value ($5-$19)''
      else ''Minimal Value (<$5)'')"

text \<open>The set literal of \<open>BatchOperations._determine_sport\<close>.\<close>

definition football_teams :: "string set" where
  "football_teams =
     {''Kansas City Chiefs'', ''Houston Texans'', ''Minnesota Vikings'', ''New England Patriots'',
      ''Carolina Panthers'', ''Los Angeles Rams'', ''New York Giants'', ''Baltimore Ravens'',
      ''New York Jets'', ''Detroit Lions'', ''Tampa Bay Buccaneers'', ''Pittsburgh Steelers'',
      ''Jacksonville Jaguars'', ''Washington Redskins'', ''Dallas Cowboys'', ''Indianapolis Colts'',
      ''Green Bay Packers'', ''Philadelphia Eagles'', ''Miami Dolphins'', ''Buffalo Bills'',
      ''Oakland Raiders'', ''Cleveland Browns'', ''Seattle Seahawks'', ''Arizona Cardinals'',
      ''Los Angeles Raiders'', ''Phoenix Cardinals'', ''San Francisco 49ers'', ''Denver Broncos''}"

text \<open>\<open>team in football_teams\<close>: a team that is \<open>None\<close> is not in the set.\<close>

definition determine_sport :: "string option \<Rightarrow> string" where
  "determine_sport tm =
     (if (case tm of None \<Rightarrow> False | Some t \<Rightarrow> t \<in> football_teams) then ''Football''
      else ''Baseball'')"

section \<open>analyze\_collection.py and simple\_analysis.py\<close>

text \<open>The set literal of \<open>analyze_collection\<close> in analyze\_collection.py.\<close>

definition analyze_collection_football_teams :: "string set" where
  "analyze_collection_football_teams =
     {''Kansas City Chiefs'', ''Houston Texans'', ''Minnesota Vikings'', ''New England Patriots'',
      ''Carolina Panthers'', ''Los Angeles Rams'', ''New York Giants'', ''Baltimore Ravens'',
      ''New York Jets'', ''Detroit Lions'', ''Tampa Bay Buccaneers'', ''Pittsburgh Steelers'',
      ''Jacksonville Jaguars'', ''Washington Redskins'', ''Dallas Cowboys'', ''Indianapolis Colts'',
      ''Green Bay Packers'', ''Philadelphia Eagles'', ''Miami Dolphins'', ''Buffalo Bills'',
      ''Oakland Raiders'', ''Cleveland Browns'', ''Seattle Seahawks'', ''Arizona Cardinals'',
      ''Los Angeles Raiders'', ''Phoenix Cardinals'', ''San Francisco 49ers'', ''Denver Broncos'',
      ''Cincinnati Bengals'', ''Tennessee Titans'', ''Atlanta Falcons'', ''Chicago Bears'',
      ''Los Angeles Chargers'', ''Las Vegas Raiders''}"

text \<open>
  The two selections of analyze\_collection.py: the rows of each sport. A missing team
  is in no set.
\<close>

definition football_cards :: "card list \<Rightarrow> card list" where
  "football_cards df =
     filter (\<lambda>row. case team row of None \<Rightarrow> False | Some t \<Rightarrow> t \<in> analyze_collection_football_teams) df"

definition baseball_cards :: "card list \<Rightarrow> card list" where
  "baseball_cards df =
     filter (\<lambda>row. \<not> (case team row of None \<Rightarrow> False | Some t \<Rightarrow> t \<in> analyze_collection_football_teams)) df"



text \<open>
  The four era counters, over the list of years: \<open>sum(1 for year in years if ...)\<close> in
  simple\_analysis.py, and the length of the same selection in analyze\_collection.py.
\<close>

definition vintage_90s :: "int list \<Rightarrow> nat" where
  "vintage_90s years = length (filter (\<lambda>year. year \<le> 1999) years)"

definition early_2000s :: "int list \<Rightarrow> nat" where
  "early_2000s years = length (filter (\<lambda>year. 2000 \<le> year \<and> year \<le> 2009) years)"

definition modern_2010s :: "int list \<Rightarrow> nat" where
  "modern_2010s years = length (filter (\<lambda>year. 2010 \<le> year \<and> year \<le> 2019) years)"

definition recent_2020s :: "int list \<Rightarrow> nat" where
  "recent_2020s years = length (filter (\<lambda>year. year \<ge> 2020) years)"

section \<open>Sample values of the two parameters\<close>

text \<open>
  \<open>str.lower()\<close> as it acts on ASCII text: the letters A to Z move to a to z and every
  other character stays. The examples below use it, on ASCII texts, as the value of
  \<open>str_lower\<close>.
\<close>

definition ascii_lower_char :: "char \<Rightarrow> char" where
  "ascii_lower_char c =
     (if CHR ''A'' \<le> c \<and> c \<le> CHR ''Z'' then char_of (of_char c + (32::nat)) else c)"

definition ascii_lower :: "string \<Rightarrow> string" where
  "ascii_lower s = map ascii_lower_char s"



section \<open>Inputs of the worked examples\<close>

text \<open>
  The three cards of the end-to-end example of the sale selection; the fields the example
  leaves open are empty.
\<close>

definition card_A :: card where
  "card_A = \<lparr>collx_id = Some ''A'', name = Some '''', team = Some '''', year = 1985,
     brand = Some '''', card_set = Some '''', number = Some '''', condition = Some ''Mint'',
     flags = Some '''', market_value = Finite 60, front_image = Some '''',
     back_image = Some '''', added = Some ''''\<rparr>"

definition card_B :: card where
  "card_B = \<lparr>collx_id = Some ''B'', name = Some '''', team = Some '''', year = 2015,
     brand = Some '''', card_set = Some '''', number = Some '''', condition = Some ''Excellent'',
     flags = Some ''RC'', market_value = Finite 30, front_image = Some '''',
     back_image = Some '''', added = Some ''''\<rparr>"

definition card_C :: card where
  "card_C = \<lparr>collx_id = Some ''C'', name = Some '''', team = Some '''', year = 2021,
     brand = Some '''', card_set = Some '''', number = Some '''', condition = Some ''Near Mint'',
     flags = Some '''', market_value = Finite 15, front_image = Some '''',
     back_image = Some '''', added = Some ''''\<rparr>"

text \<open>The call \<open>advanced_search()\<close> with no keyword argument.\<close>

definition no_criteria :: criteria where
  "no_criteria = \<lparr>kw_name = None, kw_exact_name = None, kw_team = None, kw_year = None,
     kw_year_min = None, kw_year_max = None, kw_brand = None, kw_min_value = None,
     kw_max_value = None, kw_condition = None, kw_rookie_only = None\<rparr>"

text \<open>A card with the given identifier and market value, all else as in card A.\<close>

definition valued :: "string \<Rightarrow> pyfloat \<Rightarrow> card" where
  "valued ident v = card_A\<lparr>collx_id := Some ident, market_value := v\<rparr>"


section \<open>Devices of the proofs\<close>

text \<open>
  A comparison orders a set of keys when it is irreflexive, transitive and negatively
  transitive on it, as \<open><\<close> is on integers, on strings and on floats other than NaN.
\<close>

definition ordered_keys :: "('k \<Rightarrow> 'k \<Rightarrow> bool) \<Rightarrow> 'k set \<Rightarrow> bool" where
  "ordered_keys lt K \<longleftrightarrow>
     (\<forall>a\<in>K. \<not> lt a a)
     \<and> (\<forall>a\<in>K. \<forall>b\<in>K. \<forall>c\<in>K. lt a b \<longrightarrow> lt b c \<longrightarrow> lt a c)
     \<and> (\<forall>a\<in>K. \<forall>b\<in>K. \<forall>c\<in>K. \<not> lt a b \<longrightarrow> \<not> lt b c \<longrightarrow> \<not> lt a c)"

text \<open>
  When \<open>advanced_search\<close> raises: a criterion on name, team or brand is set and some card
  of the collection has \<open>None\<close> in that column.
\<close>

definition raises :: "criteria \<Rightarrow> card list \<Rightarrow> bool" where
  "raises k cards =
     ((case kw_name k of Some nm \<Rightarrow> nm \<noteq> [] \<and> (\<exists>c\<in>set cards. name c = None) | None \<Rightarrow> False)
      \<or> (case kw_team k of Some tm \<Rightarrow> tm \<noteq> [] \<and> (\<exists>c\<in>set cards. team c = None) | None \<Rightarrow> False)
      \<or> (case kw_brand k of Some br \<Rightarrow> br \<noteq> [] \<and> (\<exists>c\<in>set cards. brand c = None) | None \<Rightarrow> False))"

text \<open>
  The test a card passes to be in the result of \<open>advanced_search\<close>: the conjunction of
  the tests of the criteria that are set, one conjunct for each \<open>if\<close> of the function.
  Lemma \<open>advanced_search_filter\<close> proves that \<open>advanced_search\<close>, which intersects the
  result lists of the single searches, raises exactly when \<open>raises\<close> holds and otherwise
  keeps exactly the cards that pass the test, in the order of the collection.
\<close>

definition matches :: "(string \<Rightarrow> string) \<Rightarrow> criteria \<Rightarrow> card \<Rightarrow> bool" where
  "matches str_lower k c =
     ((case kw_name k of
         Some nm \<Rightarrow> (if nm \<noteq> [] then
                       (case name c of
                          Some n \<Rightarrow> (if truthy_bool (kw_exact_name k) then str_lower n = str_lower nm
                                      else str_in (str_lower nm) (str_lower n))
                        | None \<Rightarrow> False)
                     else True)
       | None \<Rightarrow> True)
      \<and> (case kw_team k of
            Some tm \<Rightarrow> (if tm \<noteq> [] then
                          (case team c of Some t \<Rightarrow> str_in (str_lower tm) (str_lower t) | None \<Rightarrow> False)
                        else True)
          | None \<Rightarrow> True)
      \<and> (if truthy_int (kw_year k) then year_keeps (kw_year k) None None c else True)
      \<and> (if truthy_int (kw_year_min k) \<or> truthy_int (kw_year_max k)
          then year_keeps None (kw_year_min k) (kw_year_max k) c else True)
      \<and> (case kw_brand k of
            Some br \<Rightarrow> (if br \<noteq> [] then
                          (case brand c of Some b \<Rightarrow> str_in (str_lower br) (str_lower b) | None \<Rightarrow> False)
                        else True)
          | None \<Rightarrow> True)
      \<and> (if truthy_num (kw_min_value k) \<or> truthy_num (kw_max_value k)
          then value_keeps (kw_min_value k) (kw_max_value k) c else True)
      \<and> (case kw_condition k of
            Some cond \<Rightarrow> (if cond \<noteq> [] then
                            (case condition c of
                               None \<Rightarrow> False
                             | Some s \<Rightarrow> s \<noteq> [] \<and> str_in (str_lower cond) (str_lower s))
                          else True)
          | None \<Rightarrow> True)
      \<and> (if truthy_bool (kw_rookie_only k)
          then (case flags c of None \<Rightarrow> False | Some f \<Rightarrow> f \<noteq> [] \<and> str_in ''RC'' f) else True))"

section \<open>The list sort on ordered keys\<close>

lemma ordered_keys_irrefl: "ordered_keys lt K \<Longrightarrow> a \<in> K \<Longrightarrow> \<not> lt a a"
  by (simp add: ordered_keys_def)

lemma ordered_keys_trans:
  "ordered_keys lt K \<Longrightarrow> a \<in> K \<Longrightarrow> b \<in> K \<Longrightarrow> c \<in> K \<Longrightarrow> lt a b \<Longrightarrow> lt b c \<Longrightarrow> lt a c"
  unfolding ordered_keys_def by blast

lemma ordered_keys_negtrans:
  "ordered_keys lt K \<Longrightarrow> a \<in> K \<Longrightarrow> b \<in> K \<Longrightarrow> c \<in> K \<Longrightarrow> \<not> lt a b \<Longrightarrow> \<not> lt b c \<Longrightarrow> \<not> lt a c"
  unfolding ordered_keys_def by blast

lemma ordered_keys_asym:
  "ordered_keys lt K \<Longrightarrow> a \<in> K \<Longrightarrow> b \<in> K \<Longrightarrow> lt a b \<Longrightarrow> \<not> lt b a"
  using ordered_keys_irrefl ordered_keys_trans by metis

lemma ordered_keys_lt_le:
  "ordered_keys lt K \<Longrightarrow> a \<in> K \<Longrightarrow> b \<in> K \<Longrightarrow> c \<in> K \<Longrightarrow> lt a b \<Longrightarrow> \<not> lt c b \<Longrightarrow> lt a c"
  using ordered_keys_negtrans by metis

lemma ordered_keys_subset: "ordered_keys lt K \<Longrightarrow> J \<subseteq> K \<Longrightarrow> ordered_keys lt J"
  unfolding ordered_keys_def by blast

lemma bisect_bounds: "l \<le> r \<Longrightarrow> l \<le> bisect lt p ks l r \<and> bisect lt p ks l r \<le> r"
proof (induction lt p ks l r rule: bisect.induct)
  case (1 lt pivot ks l r)
  show ?case
  proof (cases "l < r")
    case False
    then have "bisect lt pivot ks l r = l" by (subst bisect.simps) simp
    with "1.prems" show ?thesis by simp
  next
    case True
    define m where "m = l + (r - l) div 2"
    have m: "l \<le> m" "m < r" using True by (auto simp: m_def)
    show ?thesis
    proof (cases "lt pivot (ks ! m)")
      case lt: True
      have "l \<le> bisect lt pivot ks l m \<and> bisect lt pivot ks l m \<le> m"
        using "1.IH"(1)[OF True m_def lt] m by simp
      moreover have "bisect lt pivot ks l r = bisect lt pivot ks l m"
        using True lt by (subst bisect.simps) (simp add: m_def Let_def)
      ultimately show ?thesis using m by simp
    next
      case nlt: False
      have "m + 1 \<le> bisect lt pivot ks (m + 1) r \<and> bisect lt pivot ks (m + 1) r \<le> r"
        using "1.IH"(2)[OF True m_def nlt] m by simp
      moreover have "bisect lt pivot ks l r = bisect lt pivot ks (m + 1) r"
        using True nlt by (subst bisect.simps) (simp add: m_def Let_def)
      ultimately show ?thesis using m by simp
    qed
  qed
qed

lemma bisect_split:
  assumes "sorted_wrt (\<lambda>a b. \<not> lt b a) ks"
    and "ordered_keys lt (insert p (set ks))"
    and "l \<le> r" and "r \<le> length ks"
    and "\<forall>i<l. \<not> lt p (ks ! i)"
    and "\<forall>i. r \<le> i \<and> i < length ks \<longrightarrow> lt p (ks ! i)"
  shows "(\<forall>i<bisect lt p ks l r. \<not> lt p (ks ! i))
       \<and> (\<forall>i. bisect lt p ks l r \<le> i \<and> i < length ks \<longrightarrow> lt p (ks ! i))"
  using assms
proof (induction lt p ks l r rule: bisect.induct)
  case (1 lt pivot ks l r)
  note ord = "1.prems"(2)
  note srt = "1.prems"(1)
  have inK: "ks ! i \<in> insert pivot (set ks)" if "i < length ks" for i
    using that by simp
  have le_nth: "\<not> lt (ks ! j) (ks ! i)" if "i < j" "j < length ks" for i j
    using srt that by (simp add: sorted_wrt_iff_nth_less)
  show ?case
  proof (cases "l < r")
    case False
    then have "bisect lt pivot ks l r = l" by (subst bisect.simps) simp
    moreover have "l = r" using False "1.prems"(3) by simp
    ultimately show ?thesis using "1.prems"(5,6) by simp
  next
    case True
    define m where "m = l + (r - l) div 2"
    have m: "l \<le> m" "m < r" using True by (auto simp: m_def)
    then have mlen: "m < length ks" using "1.prems"(4) by simp
    show ?thesis
    proof (cases "lt pivot (ks ! m)")
      case lt: True
      have eq: "bisect lt pivot ks l r = bisect lt pivot ks l m"
        using True lt by (subst bisect.simps) (simp add: m_def Let_def)
      have right: "\<forall>i. m \<le> i \<and> i < length ks \<longrightarrow> lt pivot (ks ! i)"
      proof (intro allI impI)
        fix i assume i: "m \<le> i \<and> i < length ks"
        show "lt pivot (ks ! i)"
        proof (cases "i = m")
          case True then show ?thesis using lt by simp
        next
          case False
          then have "\<not> lt (ks ! i) (ks ! m)" using i le_nth[of m i] by simp
          then show ?thesis
            using ordered_keys_lt_le[OF ord _ inK[OF mlen] _ lt, of "ks ! i"] i inK by simp
        qed
      qed
      show ?thesis
        unfolding eq
        using "1.IH"(1)[OF True m_def lt srt ord] m mlen "1.prems"(5) right by simp
    next
      case nlt: False
      have eq: "bisect lt pivot ks l r = bisect lt pivot ks (m + 1) r"
        using True nlt by (subst bisect.simps) (simp add: m_def Let_def)
      have left: "\<forall>i<m + 1. \<not> lt pivot (ks ! i)"
      proof (intro allI impI)
        fix i assume i: "i < m + 1"
        show "\<not> lt pivot (ks ! i)"
        proof (cases "i = m")
          case True then show ?thesis using nlt by simp
        next
          case False
          then have im: "i < m" using i by simp
          then have "\<not> lt (ks ! m) (ks ! i)" using le_nth[of i m] mlen by simp
          moreover have "i < length ks" using im mlen by simp
          ultimately show ?thesis
            using ordered_keys_lt_le[OF ord _ inK[of i] inK[OF mlen], of pivot] nlt by auto
        qed
      qed
      show ?thesis
        unfolding eq
        using "1.IH"(2)[OF True m_def nlt srt ord] m "1.prems"(4,6) left by simp
    qed
  qed
qed

lemma insert_at_sorted_stable:
  assumes srt: "sorted_wrt (\<lambda>a b. \<not> lt (fst b) (fst a)) s"
    and ord: "ordered_keys lt (insert (fst x) (fst ` set s))"
  defines "l \<equiv> bisect lt (fst x) (map fst s) 0 (length s)"
  shows "sorted_wrt (\<lambda>a b. \<not> lt (fst b) (fst a)) (take l s @ [x] @ drop l s)"
    and "filter (\<lambda>y. fst y = v) (take l s @ [x] @ drop l s) = filter (\<lambda>y. fst y = v) (s @ [x])"
proof -
  let ?ks = "map fst s"
  have srt': "sorted_wrt (\<lambda>a b. \<not> lt b a) ?ks"
    using srt by (simp add: sorted_wrt_map)
  have ord': "ordered_keys lt (insert (fst x) (set ?ks))"
    using ord by simp
  have split: "(\<forall>i<l. \<not> lt (fst x) (?ks ! i))
       \<and> (\<forall>i. l \<le> i \<and> i < length ?ks \<longrightarrow> lt (fst x) (?ks ! i))"
    unfolding l_def
  proof (rule bisect_split[OF srt' ord'])
    show "0 \<le> length s" by simp
    show "length s \<le> length ?ks" by simp
    show "\<forall>i<0. \<not> lt (fst x) (?ks ! i)" by simp
    show "\<forall>i. length s \<le> i \<and> i < length ?ks \<longrightarrow> lt (fst x) (?ks ! i)" by auto
  qed
  have l_le: "l \<le> length s"
    unfolding l_def using bisect_bounds[of 0 "length s" lt "fst x" ?ks] by simp
  have before: "\<not> lt (fst x) (fst y)" if "y \<in> set (take l s)" for y
  proof -
    from that obtain i where i: "i < length (take l s)" "take l s ! i = y"
      by (auto simp: in_set_conv_nth)
    then have "i < l" "i < length s" by simp_all
    then have "\<not> lt (fst x) (?ks ! i)" using split by blast
    then show ?thesis using i \<open>i < length s\<close> by simp
  qed
  have after: "lt (fst x) (fst y)" if "y \<in> set (drop l s)" for y
  proof -
    from that obtain i where i: "i < length (drop l s)" "drop l s ! i = y"
      by (auto simp: in_set_conv_nth)
    then have il: "l + i < length s" by simp
    then have "lt (fst x) (?ks ! (l + i))" using split by simp
    then show ?thesis using i il by simp
  qed
  have inK: "fst y \<in> insert (fst x) (fst ` set s)" if "y \<in> set (drop l s)" for y
    using that by (auto dest: in_set_dropD)
  have after_le: "\<not> lt (fst y) (fst x)" if "y \<in> set (drop l s)" for y
    using ordered_keys_asym[OF ord _ inK[OF that] after[OF that]] by simp
  have s_split: "s = take l s @ drop l s" by simp
  have cross: "\<forall>a\<in>set (take l s). \<forall>b\<in>set (drop l s). \<not> lt (fst b) (fst a)"
    using srt by (subst (asm) s_split) (simp only: sorted_wrt_append, blast)
  have st: "sorted_wrt (\<lambda>a b. \<not> lt (fst b) (fst a)) (take l s)"
    using srt by (rule sorted_wrt_take)
  have sd: "sorted_wrt (\<lambda>a b. \<not> lt (fst b) (fst a)) (drop l s)"
    using srt by (rule sorted_wrt_drop)
  show "sorted_wrt (\<lambda>a b. \<not> lt (fst b) (fst a)) (take l s @ [x] @ drop l s)"
    using st sd cross before after_le by (simp add: sorted_wrt_append)
  have irr: "\<not> lt (fst x) (fst x)"
    using ordered_keys_irrefl[OF ord] by simp
  have nodrop: "filter (\<lambda>y. fst y = fst x) (drop l s) = []"
    using after irr by (auto simp: filter_empty_conv)
  have fsplit: "filter (\<lambda>y. fst y = v) s
      = filter (\<lambda>y. fst y = v) (take l s) @ filter (\<lambda>y. fst y = v) (drop l s)"
    by (metis append_take_drop_id filter_append)
  show "filter (\<lambda>y. fst y = v) (take l s @ [x] @ drop l s) = filter (\<lambda>y. fst y = v) (s @ [x])"
  proof (cases "fst x = v")
    case True
    then have "filter (\<lambda>y. fst y = v) (drop l s) = []"
      using nodrop by simp
    then show ?thesis
      using True by (simp add: fsplit)
  next
    case False
    then show ?thesis
      by (simp add: fsplit)
  qed
qed

lemma insert_at_set: "l \<le> length s \<Longrightarrow> set (take l s @ [x] @ drop l s) = insert x (set s)"
proof -
  assume "l \<le> length s"
  have "set (take l s @ drop l s) = set s" by simp
  then show ?thesis by (simp only: set_append) auto
qed

lemma binarysort_set: "set (binarysort lt s rest) = set s \<union> set rest"
proof (induction rest arbitrary: s)
  case Nil show ?case by simp
next
  case (Cons x xs)
  let ?l = "bisect lt (fst x) (map fst s) 0 (length s)"
  have "?l \<le> length s" using bisect_bounds[of 0 "length s" lt "fst x" "map fst s"] by simp
  then have "set (take ?l s @ [x] @ drop ?l s) = insert x (set s)" by (rule insert_at_set)
  then show ?case using Cons.IH[of "take ?l s @ [x] @ drop ?l s"] by (simp add: Let_def)
qed

lemma binarysort_sorted_stable:
  assumes "sorted_wrt (\<lambda>a b. \<not> lt (fst b) (fst a)) s"
    and "ordered_keys lt (fst ` (set s \<union> set rest))"
  shows "sorted_wrt (\<lambda>a b. \<not> lt (fst b) (fst a)) (binarysort lt s rest)
       \<and> filter (\<lambda>y. fst y = v) (binarysort lt s rest) = filter (\<lambda>y. fst y = v) (s @ rest)"
  using assms
proof (induction rest arbitrary: s)
  case Nil then show ?case by simp
next
  case (Cons x xs)
  let ?l = "bisect lt (fst x) (map fst s) 0 (length s)"
  let ?s' = "take ?l s @ [x] @ drop ?l s"
  have ord1: "ordered_keys lt (insert (fst x) (fst ` set s))"
    using Cons.prems(2) by (rule ordered_keys_subset) auto
  have s1: "sorted_wrt (\<lambda>a b. \<not> lt (fst b) (fst a)) ?s'"
    using insert_at_sorted_stable(1)[OF Cons.prems(1) ord1] .
  have f1: "filter (\<lambda>y. fst y = v) ?s' = filter (\<lambda>y. fst y = v) (s @ [x])"
    using insert_at_sorted_stable(2)[OF Cons.prems(1) ord1] .
  have "?l \<le> length s" using bisect_bounds[of 0 "length s" lt "fst x" "map fst s"] by simp
  then have set1: "set ?s' = insert x (set s)" by (rule insert_at_set)
  have ord2: "ordered_keys lt (fst ` (set ?s' \<union> set xs))"
    using Cons.prems(2) unfolding set1 by (rule ordered_keys_subset) auto
  have bs: "binarysort lt s (x # xs) = binarysort lt ?s' xs"
    by (simp add: Let_def)
  have "filter (\<lambda>y. fst y = v) (binarysort lt ?s' xs) = filter (\<lambda>y. fst y = v) (?s' @ xs)"
    using Cons.IH[OF s1 ord2] by blast
  also have "\<dots> = filter (\<lambda>y. fst y = v) ?s' @ filter (\<lambda>y. fst y = v) xs"
    by (rule filter_append)
  also have "\<dots> = filter (\<lambda>y. fst y = v) (s @ [x]) @ filter (\<lambda>y. fst y = v) xs"
    by (simp only: f1)
  also have "\<dots> = filter (\<lambda>y. fst y = v) (s @ x # xs)"
    by simp
  finally have "filter (\<lambda>y. fst y = v) (binarysort lt ?s' xs) = filter (\<lambda>y. fst y = v) (s @ x # xs)" .
  moreover have "sorted_wrt (\<lambda>a b. \<not> lt (fst b) (fst a)) (binarysort lt ?s' xs)"
    using Cons.IH[OF s1 ord2] by blast
  ultimately show ?case
    unfolding bs by blast
qed

lemma take_asc_props:
  assumes "take_asc lt prev xs = (run, rest)"
    and "ordered_keys lt (insert prev (fst ` set xs))"
  shows "xs = run @ rest
       \<and> (\<forall>y\<in>set run. \<not> lt (fst y) prev)
       \<and> sorted_wrt (\<lambda>a b. \<not> lt (fst b) (fst a)) run"
  using assms
proof (induction xs arbitrary: prev run rest)
  case Nil then show ?case by simp
next
  case (Cons x xs)
  show ?case
  proof (cases "lt (fst x) prev")
    case True
    with Cons.prems(1) show ?thesis by simp
  next
    case False
    obtain r' rest' where tr: "take_asc lt (fst x) xs = (r', rest')"
      by (cases "take_asc lt (fst x) xs")
    with Cons.prems(1) False have run: "run = x # r'" and rest: "rest = rest'"
      by simp_all
    have ord': "ordered_keys lt (insert (fst x) (fst ` set xs))"
      using Cons.prems(2) by (rule ordered_keys_subset) auto
    from Cons.IH[OF tr ord']
    have ih: "xs = r' @ rest'" "\<forall>y\<in>set r'. \<not> lt (fst y) (fst x)"
      "sorted_wrt (\<lambda>a b. \<not> lt (fst b) (fst a)) r'"
      by blast+
    have "\<not> lt (fst y) prev" if "y \<in> set r'" for y
    proof -
      have "y \<in> set xs" using that ih(1) by (metis Un_iff set_append)
      then have k: "fst y \<in> insert prev (fst ` set (x # xs))" by simp
      show ?thesis
        using ordered_keys_negtrans[OF Cons.prems(2) k, of "fst x" prev] ih(2) that False
        by simp
    qed
    then show ?thesis
      using ih False by (simp add: run rest)
  qed
qed

lemma take_desc_props:
  assumes "take_desc lt prev xs = (run, rest)"
    and "ordered_keys lt (insert prev (fst ` set xs))"
  shows "xs = run @ rest
       \<and> (\<forall>y\<in>set run. lt (fst y) prev)
       \<and> sorted_wrt (\<lambda>a b. lt (fst b) (fst a)) run"
  using assms
proof (induction xs arbitrary: prev run rest)
  case Nil then show ?case by simp
next
  case (Cons x xs)
  show ?case
  proof (cases "lt (fst x) prev")
    case False
    with Cons.prems(1) show ?thesis by simp
  next
    case True
    obtain r' rest' where tr: "take_desc lt (fst x) xs = (r', rest')"
      by (cases "take_desc lt (fst x) xs")
    with Cons.prems(1) True have run: "run = x # r'" and rest: "rest = rest'"
      by simp_all
    have ord': "ordered_keys lt (insert (fst x) (fst ` set xs))"
      using Cons.prems(2) by (rule ordered_keys_subset) auto
    from Cons.IH[OF tr ord']
    have ih: "xs = r' @ rest'" "\<forall>y\<in>set r'. lt (fst y) (fst x)"
      "sorted_wrt (\<lambda>a b. lt (fst b) (fst a)) r'"
      by blast+
    have "lt (fst y) prev" if "y \<in> set r'" for y
    proof -
      have "y \<in> set xs" using that ih(1) by (metis Un_iff set_append)
      then have k: "fst y \<in> insert prev (fst ` set (x # xs))" by simp
      show ?thesis
        using ordered_keys_trans[OF Cons.prems(2) k, of "fst x" prev] ih(2) that True
        by simp
    qed
    then show ?thesis
      using ih True by (simp add: run rest)
  qed
qed

lemma filter_rev_distinct_keys:
  "sorted_wrt (\<lambda>a b. fst a \<noteq> fst b) zs \<Longrightarrow>
   filter (\<lambda>y. fst y = v) (rev zs) = filter (\<lambda>y. fst y = v) zs"
proof (induction zs)
  case Nil show ?case by simp
next
  case (Cons z zs)
  then have ih: "filter (\<lambda>y. fst y = v) (rev zs) = filter (\<lambda>y. fst y = v) zs"
    by simp
  show ?case
  proof (cases "fst z = v")
    case True
    then have "filter (\<lambda>y. fst y = v) zs = []"
      using Cons.prems by (auto simp: filter_empty_conv)
    then show ?thesis using True ih by simp
  next
    case False
    then show ?thesis using ih by simp
  qed
qed

lemma count_run_props:
  assumes cr: "count_run lt xs = (run, rest)"
    and ord: "ordered_keys lt (fst ` set xs)"
  shows "sorted_wrt (\<lambda>a b. \<not> lt (fst b) (fst a)) run
       \<and> filter (\<lambda>y. fst y = v) (run @ rest) = filter (\<lambda>y. fst y = v) xs
       \<and> set run \<union> set rest = set xs"
proof (cases xs)
  case Nil
  with cr show ?thesis by simp
next
  case (Cons x xs')
  show ?thesis
  proof (cases xs')
    case Nil
    with cr Cons show ?thesis by auto
  next
    case (Cons y ys)
    note xs = \<open>xs = x # xs'\<close> \<open>xs' = y # ys\<close>
    have kx: "fst x \<in> fst ` set xs" and ky: "fst y \<in> fst ` set xs"
      using xs by simp_all
    have kz: "fst z \<in> fst ` set xs" if "z \<in> set ys" for z
      using that xs by simp
    have ord': "ordered_keys lt (insert (fst y) (fst ` set ys))"
      using ord by (rule ordered_keys_subset) (auto simp: xs)
    show ?thesis
    proof (cases "lt (fst y) (fst x)")
      case False
      obtain r rest' where tr: "take_asc lt (fst y) ys = (r, rest')"
        by (cases "take_asc lt (fst y) ys")
      with cr xs False have run: "run = x # y # r" and rest: "rest = rest'"
        by simp_all
      from take_asc_props[OF tr ord']
      have p: "ys = r @ rest'" "\<forall>z\<in>set r. \<not> lt (fst z) (fst y)"
        "sorted_wrt (\<lambda>a b. \<not> lt (fst b) (fst a)) r"
        by blast+
      have "\<not> lt (fst z) (fst x)" if "z \<in> set r" for z
      proof -
        have "z \<in> set ys" using that p(1) by (metis Un_iff set_append)
        from ordered_keys_negtrans[OF ord kz[OF this] ky kx] p(2) that False
        show ?thesis by simp
      qed
      then have "sorted_wrt (\<lambda>a b. \<not> lt (fst b) (fst a)) run"
        using p False by (simp add: run)
      moreover have "run @ rest = xs"
        using p(1) by (simp add: run rest xs)
      ultimately show ?thesis
        by (metis set_append)
    next
      case True
      obtain r rest' where tr: "take_desc lt (fst y) ys = (r, rest')"
        by (cases "take_desc lt (fst y) ys")
      with cr xs True have run: "run = rev (x # y # r)" and rest: "rest = rest'"
        by simp_all
      from take_desc_props[OF tr ord']
      have p: "ys = r @ rest'" "\<forall>z\<in>set r. lt (fst z) (fst y)"
        "sorted_wrt (\<lambda>a b. lt (fst b) (fst a)) r"
        by blast+
      have rys: "z \<in> set ys" if "z \<in> set r" for z
        using that p(1) by (metis Un_iff set_append)
      have "lt (fst z) (fst x)" if "z \<in> set r" for z
        using ordered_keys_trans[OF ord kz[OF rys[OF that]] ky kx] p(2) that True
        by simp
      then have desc: "sorted_wrt (\<lambda>a b. lt (fst b) (fst a)) (x # y # r)"
        using p True by simp
      have inK: "fst z \<in> fst ` set xs" if "z \<in> set (x # y # r)" for z
      proof -
        from that consider "z = x" | "z = y" | "z \<in> set r"
          by auto
        then have "z \<in> set xs"
        proof cases
          case 1 then show ?thesis by (simp add: xs)
        next
          case 2 then show ?thesis by (simp add: xs)
        next
          case 3 then show ?thesis using rys[of z] by (simp add: xs)
        qed
        then show ?thesis by (rule imageI)
      qed
      have "sorted_wrt (\<lambda>a b. \<not> lt (fst a) (fst b)) (x # y # r)"
        using desc
      proof (rule sorted_wrt_mono_rel[rotated])
        fix a b assume "a \<in> set (x # y # r)" "b \<in> set (x # y # r)" "lt (fst b) (fst a)"
        then show "\<not> lt (fst a) (fst b)"
          using ordered_keys_asym[OF ord inK inK] by blast
      qed
      then have s: "sorted_wrt (\<lambda>a b. \<not> lt (fst b) (fst a)) run"
        unfolding run sorted_wrt_rev .
      have "sorted_wrt (\<lambda>a b. fst a \<noteq> fst b) (x # y # r)"
        using desc
      proof (rule sorted_wrt_mono_rel[rotated])
        fix a b assume "a \<in> set (x # y # r)" "b \<in> set (x # y # r)" "lt (fst b) (fst a)"
        then show "fst a \<noteq> fst b"
          using ordered_keys_irrefl[OF ord inK] by metis
      qed
      then have "filter (\<lambda>y. fst y = v) run = filter (\<lambda>y. fst y = v) (x # y # r)"
        unfolding run by (rule filter_rev_distinct_keys)
      then have f: "filter (\<lambda>y. fst y = v) (run @ rest) = filter (\<lambda>y. fst y = v) xs"
        using p(1) by (simp add: rest xs)
      have "set run \<union> set rest = set xs"
        using p(1) by (auto simp: run rest xs)
      with s f show ?thesis by blast
    qed
  qed
qed

lemma list_sort_plain:
  assumes ord: "ordered_keys lt (fst ` set kvs)"
  shows "sorted_wrt (\<lambda>a b. \<not> lt (fst b) (fst a)) (list_sort lt False kvs)
       \<and> filter (\<lambda>y. fst y = v) (list_sort lt False kvs) = filter (\<lambda>y. fst y = v) kvs
       \<and> set (list_sort lt False kvs) = set kvs"
proof -
  obtain run rest where cr: "count_run lt kvs = (run, rest)"
    by (cases "count_run lt kvs")
  from count_run_props[OF cr ord]
  have p: "sorted_wrt (\<lambda>a b. \<not> lt (fst b) (fst a)) run"
    "filter (\<lambda>y. fst y = v) (run @ rest) = filter (\<lambda>y. fst y = v) kvs"
    "set run \<union> set rest = set kvs"
    by blast+
  have ord': "ordered_keys lt (fst ` (set run \<union> set rest))"
    using ord p(3) by simp
  have ls: "list_sort lt False kvs = binarysort lt run rest"
    by (simp add: list_sort_def cr)
  from binarysort_sorted_stable[OF p(1) ord'] p(2) binarysort_set[of lt run rest] p(3)
  show ?thesis
    unfolding ls by simp
qed

lemma list_sort_stable:
  assumes ord: "ordered_keys lt (fst ` set kvs)"
  shows "filter (\<lambda>y. fst y = v) (list_sort lt r kvs) = filter (\<lambda>y. fst y = v) kvs"
proof (cases r)
  case False
  then show ?thesis using list_sort_plain[OF ord] by simp
next
  case True
  have ord': "ordered_keys lt (fst ` set (rev kvs))"
    using ord by simp
  have "list_sort lt True kvs = rev (list_sort lt False (rev kvs))"
    by (simp add: list_sort_def)
  then have "filter (\<lambda>y. fst y = v) (list_sort lt True kvs)
      = rev (filter (\<lambda>y. fst y = v) (list_sort lt False (rev kvs)))"
    by (simp add: rev_filter)
  also have "\<dots> = rev (filter (\<lambda>y. fst y = v) (rev kvs))"
    using list_sort_plain[OF ord'] by simp
  also have "\<dots> = filter (\<lambda>y. fst y = v) kvs"
    by (simp add: rev_filter)
  finally show ?thesis using True by simp
qed

lemma list_sort_set:
  assumes ord: "ordered_keys lt (fst ` set kvs)"
  shows "set (list_sort lt r kvs) = set kvs"
proof (cases r)
  case False
  then show ?thesis using list_sort_plain[OF ord] by simp
next
  case True
  have ord': "ordered_keys lt (fst ` set (rev kvs))"
    using ord by simp
  have "list_sort lt True kvs = rev (list_sort lt False (rev kvs))"
    by (simp add: list_sort_def)
  then show ?thesis using list_sort_plain[OF ord'] True by simp
qed

lemma list_sort_sorted:
  assumes ord: "ordered_keys lt (fst ` set kvs)"
  shows "sorted_wrt (\<lambda>a b. \<not> lt (fst b) (fst a)) (list_sort lt False kvs)"
    and "sorted_wrt (\<lambda>a b. \<not> lt (fst a) (fst b)) (list_sort lt True kvs)"
proof -
  show "sorted_wrt (\<lambda>a b. \<not> lt (fst b) (fst a)) (list_sort lt False kvs)"
    using list_sort_plain[OF ord] by simp
  have ord': "ordered_keys lt (fst ` set (rev kvs))"
    using ord by simp
  have "list_sort lt True kvs = rev (list_sort lt False (rev kvs))"
    by (simp add: list_sort_def)
  then show "sorted_wrt (\<lambda>a b. \<not> lt (fst a) (fst b)) (list_sort lt True kvs)"
    using list_sort_plain[OF ord'] by (simp add: sorted_wrt_rev)
qed

lemma fl_lt_ordered: "NaN \<notin> K \<Longrightarrow> ordered_keys fl_lt K"
proof -
  assume nan: "NaN \<notin> K"
  have irr: "\<not> fl_lt a a" for a by (cases a) simp_all
  have tr: "fl_lt a b \<Longrightarrow> fl_lt b c \<Longrightarrow> fl_lt a c" for a b c
    by (cases a; cases b; cases c) simp_all
  have ntr: "a \<noteq> NaN \<Longrightarrow> b \<noteq> NaN \<Longrightarrow> c \<noteq> NaN \<Longrightarrow> \<not> fl_lt a b \<Longrightarrow> \<not> fl_lt b c \<Longrightarrow> \<not> fl_lt a c"
    for a b c
    by (cases a; cases b; cases c) simp_all
  have nn: "a \<noteq> NaN" if "a \<in> K" for a
    using that nan by auto
  show ?thesis
    unfolding ordered_keys_def
  proof (intro conjI ballI impI)
    fix a show "\<not> fl_lt a a" by (rule irr)
  next
    fix a b c assume "fl_lt a b" "fl_lt b c"
    then show "fl_lt a c" by (rule tr)
  next
    fix a b c assume "a \<in> K" "b \<in> K" "c \<in> K" "\<not> fl_lt a b" "\<not> fl_lt b c"
    then show "\<not> fl_lt a c" using ntr[of a b c] nn by blast
  qed
qed

lemma less_ordered: "ordered_keys (\<lambda>a b. a < b) (K :: ('k::linorder) set)"
  unfolding ordered_keys_def by auto

section \<open>advanced\_search as one filter\<close>

lemma error_is_AttributeError: "(e::error) = AttributeError"
  by (cases e)

lemma filter_raise_opt:
  "filter_raise (\<lambda>c. case f c of None \<Rightarrow> Inl AttributeError | Some t \<Rightarrow> Inr (P t)) xs
     = (if \<exists>c\<in>set xs. f c = None then Inl AttributeError
        else Inr (filter (\<lambda>c. case f c of Some t \<Rightarrow> P t | None \<Rightarrow> False) xs))"
  by (induction xs) (auto split: option.splits)

lemma keep_in_filter: "keep_in (filter Q cs) (filter P cs) = filter (\<lambda>c. Q c \<and> P c) cs"
  unfolding keep_in_def filter_filter by (rule filter_cong) auto

lemma and_then_assoc:
  "and_then m (\<lambda>x. and_then (f x) g) = and_then (and_then m f) g"
  by (cases m) (simp_all add: and_then_def)

lemma start_step: "Inr cs = (if False then Inl AttributeError else Inr (filter (\<lambda>c. True) cs))"
  by simp

lemma raise_step:
  "and_then (if A then Inl AttributeError else Inr (filter Q cs))
     (\<lambda>results. case x of
          Some s \<Rightarrow>
            if s \<noteq> [] then
              and_then (if B then Inl AttributeError else Inr (filter (P s) cs))
                (\<lambda>other. Inr (keep_in results other))
            else Inr results
        | None \<Rightarrow> Inr results)
   = (if A \<or> (case x of Some s \<Rightarrow> s \<noteq> [] \<and> B | None \<Rightarrow> False) then Inl AttributeError
      else Inr (filter (\<lambda>c. Q c \<and> (case x of Some s \<Rightarrow> (if s \<noteq> [] then P s c else True)
                                      | None \<Rightarrow> True)) cs))"
  by (cases x) (auto simp: and_then_def keep_in_filter)

lemma pure_step_if:
  "and_then (if A then Inl AttributeError else Inr (filter Q cs))
     (\<lambda>results. Inr (if b then keep_in results (filter P cs) else results))
   = (if A then Inl AttributeError
      else Inr (filter (\<lambda>c. Q c \<and> (if b then P c else True)) cs))"
  by (auto simp: and_then_def keep_in_filter)

lemma pure_step_case:
  "and_then (if A then Inl AttributeError else Inr (filter Q cs))
     (\<lambda>results. Inr (case x of
          Some s \<Rightarrow> if s \<noteq> [] then keep_in results (filter (P s) cs) else results
        | None \<Rightarrow> results))
   = (if A then Inl AttributeError
      else Inr (filter (\<lambda>c. Q c \<and> (case x of Some s \<Rightarrow> (if s \<noteq> [] then P s c else True)
                                      | None \<Rightarrow> True)) cs))"
  by (cases x) (auto simp: and_then_def keep_in_filter)

lemma advanced_search_filter:
  "advanced_search str_lower cards k =
     (if raises k cards then Inl AttributeError else Inr (filter (matches str_lower k) cards))"
proof -
  have shape: "advanced_search str_lower cards k =
    (if ((((False \<or> (case kw_name k of Some s \<Rightarrow> s \<noteq> [] \<and> (\<exists>c\<in>set cards. name c = None) | None \<Rightarrow> False))
          \<or> (case kw_team k of Some s \<Rightarrow> s \<noteq> [] \<and> (\<exists>c\<in>set cards. team c = None) | None \<Rightarrow> False)))
          \<or> (case kw_brand k of Some s \<Rightarrow> s \<noteq> [] \<and> (\<exists>c\<in>set cards. brand c = None) | None \<Rightarrow> False))
     then Inl AttributeError
     else Inr (filter (\<lambda>c. ((((((((True
        \<and> (case kw_name k of
             Some nm \<Rightarrow> (if nm \<noteq> [] then
                 (case name c of
                    Some n \<Rightarrow> (if truthy_bool (kw_exact_name k) then str_lower n = str_lower nm
                                else str_in (str_lower nm) (str_lower n))
                  | None \<Rightarrow> False)
               else True)
           | None \<Rightarrow> True))
        \<and> (case kw_team k of
             Some tm \<Rightarrow> (if tm \<noteq> [] then
                 (case team c of Some t \<Rightarrow> str_in (str_lower tm) (str_lower t) | None \<Rightarrow> False)
               else True)
           | None \<Rightarrow> True))
        \<and> (if truthy_int (kw_year k) then year_keeps (kw_year k) None None c else True))
        \<and> (if truthy_int (kw_year_min k) \<or> truthy_int (kw_year_max k)
            then year_keeps None (kw_year_min k) (kw_year_max k) c else True))
        \<and> (case kw_brand k of
             Some br \<Rightarrow> (if br \<noteq> [] then
                 (case brand c of Some b \<Rightarrow> str_in (str_lower br) (str_lower b) | None \<Rightarrow> False)
               else True)
           | None \<Rightarrow> True))
        \<and> (if truthy_num (kw_min_value k) \<or> truthy_num (kw_max_value k)
            then value_keeps (kw_min_value k) (kw_max_value k) c else True))
        \<and> (case kw_condition k of
             Some cond \<Rightarrow> (if cond \<noteq> [] then
                 (case condition c of
                    None \<Rightarrow> False
                  | Some s \<Rightarrow> s \<noteq> [] \<and> str_in (str_lower cond) (str_lower s))
               else True)
           | None \<Rightarrow> True))
        \<and> (if truthy_bool (kw_rookie_only k)
            then (case flags c of None \<Rightarrow> False | Some f \<Rightarrow> f \<noteq> [] \<and> str_in ''RC'' f) else True))) cards))"
    unfolding advanced_search_def search_by_name_def search_by_team_def search_by_brand_def
      search_by_year_def search_by_value_def search_by_condition_def search_rookie_cards_def
      Let_def filter_raise_opt and_then_assoc
    apply (subst start_step)
    apply (simp only: raise_step pure_step_if pure_step_case)
    done
  show ?thesis
    unfolding shape raises_def matches_def[abs_def]
    by (simp only: simp_thms disj_assoc conj_assoc)
qed

lemma matches_year_range:
  "matches str_lower k c \<longleftrightarrow>
     matches str_lower (k\<lparr>kw_year_min := None, kw_year_max := None\<rparr>) c
     \<and> (if truthy_int (kw_year_min k) \<or> truthy_int (kw_year_max k)
        then year_keeps None (kw_year_min k) (kw_year_max k) c else True)"
  by (simp add: matches_def conj_commute conj_left_commute split del: if_split
      cong: if_cong option.case_cong)

lemma matches_exact_year:
  "kw_year k = Some y \<Longrightarrow> y \<noteq> 0 \<Longrightarrow> matches str_lower k c \<Longrightarrow> year c = y"
  by (simp add: matches_def year_keeps_def split del: if_split)

lemma year_range_test:
  "(if truthy_int lo \<or> truthy_int hi then year_keeps None lo hi c else True)
     \<longleftrightarrow> (case lo of Some l \<Rightarrow> l = 0 \<or> l \<le> year c | None \<Rightarrow> True)
         \<and> (case hi of Some h \<Rightarrow> h = 0 \<or> year c \<le> h | None \<Rightarrow> True)"
  by (cases lo; cases hi) (auto simp: year_keeps_def Let_def)

lemma raises_year_range:
  "raises (k\<lparr>kw_year_min := None, kw_year_max := None\<rparr>) cards = raises k cards"
  by (simp add: raises_def)


section \<open>Era counters and the limit on any input\<close>

lemma era_counts_partition:
  "vintage_90s ys + early_2000s ys + modern_2010s ys + recent_2020s ys = length ys"
  by (induction ys) (auto simp: vintage_90s_def early_2000s_def modern_2010s_def recent_2020s_def)

lemma format_results_limit_negative:
  "n < 0 \<Longrightarrow> format_results_limit results (Some n) = take (length results - nat (- n)) results"
  by (simp add: format_results_limit_def slice_to_def)

section \<open>Sale selection\<close>

text \<open>
  C1, as the code behaves: for three cards A (1985, value 60, Mint, no flags), B (2015,
  value 30, Excellent, flags RC) and C (2021, value 15, Near Mint, no flags), whatever
  their other fields, the sale selection with a minimum value of 10, favourites excluded
  and room for at least three cards returns all three, A first: A is neither above 500,
  nor a rookie above 100, nor from 1980 or earlier.
\<close>

theorem select_cards_for_sale_example:
  assumes "year a = 1985" "market_value a = Finite 60" "condition a = Some ''Mint''"
      "flags a = Some ''''"
    and "year b = 2015" "market_value b = Finite 30" "condition b = Some ''Excellent''"
      "flags b = Some ''RC''"
    and "year c = 2021" "market_value c = Finite 15" "condition c = Some ''Near Mint''"
      "flags c = Some ''''"
    and "3 \<le> max_cards"
  shows "select_cards_for_sale [a, b, c] (Finite 10) max_cards True = [a, b, c]"
proof -
  have cand: "filter (sale_candidate (Finite 10) True) [a, b, c] = [a, b, c]"
    using assms by (simp add: sale_candidate_def fl_gt_def)
  have srt: "map snd (list_sort fl_lt True (map (\<lambda>x. (market_value x, x)) [a, b, c])) = [a, b, c]"
    using assms by (simp add: list_sort_def)
  have "nat max_cards \<ge> 3"
    using assms by simp
  then have "slice_to [a, b, c] max_cards = [a, b, c]"
    using assms by (simp add: slice_to_def)
  then show ?thesis
    by (simp only: select_cards_for_sale_def Let_def cand srt)
qed

theorem select_cards_for_sale_example_witness:
  "select_cards_for_sale [card_A, card_B, card_C] (Finite 10) 3 True = [card_A, card_B, card_C]"
  using select_cards_for_sale_example [of card_A card_B card_C 3]
  by (simp add: card_A_def card_B_def card_C_def)

text \<open>
  C1, as stated, fails: on the three cards of the example the selection is not [B, C],
  and A is in it.
\<close>

theorem select_cards_for_sale_keeps_A:
  "select_cards_for_sale [card_A, card_B, card_C] (Finite 10) 3 True \<noteq> [card_B, card_C]
   \<and> card_A \<in> set (select_cards_for_sale [card_A, card_B, card_C] (Finite 10) 3 True)"
proof -
  have "select_cards_for_sale [card_A, card_B, card_C] (Finite 10) 3 True
      = [card_A, card_B, card_C]"
    by code_simp
  then show ?thesis by simp
qed

section \<open>Exact year and year range together\<close>

text \<open>
  C2, as the code behaves: with an exact year \<open>y\<close> (not 0) among the criteria,
  \<open>advanced_search\<close> applies the year range as well. Its result is the result without
  the range when \<open>y\<close> lies within the bounds that are set (a bound that is absent or 0
  does not count); otherwise it is empty, or the error that the search without the range
  raises.
\<close>

theorem advanced_search_year_and_range:
  assumes "kw_year k = Some y" and "y \<noteq> 0"
  shows "advanced_search str_lower cards k =
     (if (case kw_year_min k of Some lo \<Rightarrow> lo = 0 \<or> lo \<le> y | None \<Rightarrow> True)
         \<and> (case kw_year_max k of Some hi \<Rightarrow> hi = 0 \<or> y \<le> hi | None \<Rightarrow> True)
      then advanced_search str_lower cards (k\<lparr>kw_year_min := None, kw_year_max := None\<rparr>)
      else (case advanced_search str_lower cards (k\<lparr>kw_year_min := None, kw_year_max := None\<rparr>) of
              Inl e \<Rightarrow> Inl e
            | Inr rs \<Rightarrow> Inr []))"
proof -
  let ?k' = "k\<lparr>kw_year_min := None, kw_year_max := None\<rparr>"
  let ?ok = "(case kw_year_min k of Some lo \<Rightarrow> lo = 0 \<or> lo \<le> y | None \<Rightarrow> True)
         \<and> (case kw_year_max k of Some hi \<Rightarrow> hi = 0 \<or> y \<le> hi | None \<Rightarrow> True)"
  have k': "kw_year ?k' = Some y"
    using assms by simp
  have m: "matches str_lower k c = (matches str_lower ?k' c \<and> ?ok)" for c
  proof (cases "matches str_lower ?k' c")
    case True
    then have "year c = y"
      using k' assms(2) by (rule matches_exact_year[rotated 2])
    then show ?thesis
      using True by (simp only: matches_year_range[of str_lower k c] year_range_test simp_thms)
  next
    case False
    then show ?thesis
      by (simp only: matches_year_range[of str_lower k c] simp_thms)
  qed
  have eq: "filter (matches str_lower k) cards = filter (\<lambda>c. matches str_lower ?k' c \<and> ?ok) cards"
    by (rule filter_cong[OF refl]) (simp only: m)
  show ?thesis
  proof (cases "raises k cards")
    case True
    then show ?thesis
      by (simp add: advanced_search_filter raises_year_range)
  next
    case nr: False
    show ?thesis
    proof (cases ?ok)
      case True
      then have "filter (\<lambda>c. matches str_lower ?k' c \<and> ?ok) cards = filter (matches str_lower ?k') cards"
        by (intro filter_cong[OF refl]) blast
      with True eq nr show ?thesis
        unfolding advanced_search_filter raises_year_range by (simp only: if_True if_False simp_thms)
    next
      case False
      then have "filter (\<lambda>c. matches str_lower ?k' c \<and> ?ok) cards = []"
        by (intro filter_False) blast
      with False eq nr show ?thesis
        unfolding advanced_search_filter raises_year_range
        by (simp only: if_True if_False simp_thms sum.case)
    qed
  qed
qed

theorem advanced_search_year_and_range_witness:
  "advanced_search ascii_lower [card_A, card_B]
      (no_criteria\<lparr>kw_year := Some 1985, kw_year_min := Some 1980, kw_year_max := Some 1990\<rparr>)
     = advanced_search ascii_lower [card_A, card_B] (no_criteria\<lparr>kw_year := Some 1985\<rparr>)"
  using advanced_search_year_and_range
    [of "no_criteria\<lparr>kw_year := Some 1985, kw_year_min := Some 1980, kw_year_max := Some 1990\<rparr>"
      1985 ascii_lower "[card_A, card_B]"]
  by (simp add: no_criteria_def)

text \<open>
  C2, as stated, fails: for the exact year 1985 and the range 2000 to 2020 the search
  over the single card A (of 1985) is empty, and the search for the exact year alone
  returns A.
\<close>

theorem advanced_search_year_outside_range:
  "advanced_search ascii_lower [card_A]
      (no_criteria\<lparr>kw_year := Some 1985, kw_year_min := Some 2000, kw_year_max := Some 2020\<rparr>)
     = Inr []
   \<and> advanced_search ascii_lower [card_A] (no_criteria\<lparr>kw_year := Some 1985\<rparr>) = Inr [card_A]"
  by (simp add: advanced_search_filter raises_def matches_def no_criteria_def year_keeps_def
      card_A_def)

section \<open>Sport\<close>

text \<open>
  C3 fails on the code: for any row of the team Chicago Bears, \<open>_determine_sport\<close>
  answers Baseball, and analyze\_collection.py selects the row as a football card and
  not as a baseball card. The two set literals differ.
\<close>

theorem determine_sport_chicago_bears:
  "determine_sport (team (r\<lparr>team := Some ''Chicago Bears''\<rparr>)) = ''Baseball''
   \<and> football_cards [r\<lparr>team := Some ''Chicago Bears''\<rparr>] = [r\<lparr>team := Some ''Chicago Bears''\<rparr>]
   \<and> baseball_cards [r\<lparr>team := Some ''Chicago Bears''\<rparr>] = []"
  by (simp add: determine_sport_def football_teams_def football_cards_def baseball_cards_def
      analyze_collection_football_teams_def)

section \<open>Result limit\<close>

text \<open>
  C4, as the code behaves: with no limit, or a limit of 0, \<open>format_results\<close> keeps the
  whole sequence; with a positive limit \<open>n\<close> it keeps the first \<open>n\<close> elements.
\<close>

theorem format_results_limit_cases:
  "format_results_limit results None = results
   \<and> format_results_limit results (Some 0) = results
   \<and> (0 < n \<longrightarrow> format_results_limit results (Some n) = take (nat n) results)"
  by (simp add: format_results_limit_def slice_to_def)

theorem format_results_limit_cases_witness:
  "(0::int) < 2
   \<and> format_results_limit [card_A, card_B, card_C] None = [card_A, card_B, card_C]
   \<and> format_results_limit [card_A, card_B, card_C] (Some 0) = [card_A, card_B, card_C]
   \<and> format_results_limit [card_A, card_B, card_C] (Some 2) = [card_A, card_B]"
  using format_results_limit_cases [of "[card_A, card_B, card_C]" 2]
  by simp

text \<open>
  C4, as stated, fails: with the limit -1 the last of three results is dropped, so the
  sequence is not left whole.
\<close>

theorem format_results_limit_minus_one:
  "format_results_limit [card_A, card_B, card_C] (Some (- 1)) = [card_A, card_B]
   \<and> format_results_limit [card_A, card_B, card_C] (Some (- 1)) \<noteq> [card_A, card_B, card_C]"
  by (simp add: format_results_limit_def slice_to_def)

section \<open>Value tiers\<close>

text \<open>
  C5, as the code behaves: for a market value that is not NaN, the value category is High
  exactly when the value is at least 100, Medium exactly from 20 up to (not including)
  100, Low exactly from 5 up to (not including) 20, and Minimal exactly below 5; so 100
  is High, 99.99 and 20 are Medium, 19.99 and 5 are Low, and 4.99 is Minimal (each decimal
  is given as itself and as the float nearest to it).
\<close>

theorem categorize_value_tiers:
  assumes "v \<noteq> NaN"
  shows "(categorize_value v = ''High Value ($100+)'' \<longleftrightarrow> fl_ge v (Finite 100))
   \<and> (categorize_value v = ''Medium Value ($20-$99)'' \<longleftrightarrow> fl_ge v (Finite 20) \<and> fl_lt v (Finite 100))
   \<and> (categorize_value v = ''Low Value ($5-$19)'' \<longleftrightarrow> fl_ge v (Finite 5) \<and> fl_lt v (Finite 20))
   \<and> (categorize_value v = ''Minimal Value (<$5)'' \<longleftrightarrow> fl_lt v (Finite 5))
   \<and> categorize_value (Finite 100) = ''High Value ($100+)''
   \<and> categorize_value (Finite (9999 / 100)) = ''Medium Value ($20-$99)''
   \<and> categorize_value (Finite (7036170730324623 / 70368744177664)) = ''Medium Value ($20-$99)''
   \<and> categorize_value (Finite 20) = ''Medium Value ($20-$99)''
   \<and> categorize_value (Finite (1999 / 100)) = ''Low Value ($5-$19)''
   \<and> categorize_value (Finite (5626684784446013 / 281474976710656)) = ''Low Value ($5-$19)''
   \<and> categorize_value (Finite 5) = ''Low Value ($5-$19)''
   \<and> categorize_value (Finite (499 / 100)) = ''Minimal Value (<$5)''
   \<and> categorize_value (Finite (2809120267572347 / 562949953421312)) = ''Minimal Value (<$5)''"
  using assms by (cases v) (auto simp: categorize_value_def fl_ge_def fl_le_def)

theorem categorize_value_tiers_witness:
  "categorize_value (Finite 100) = ''High Value ($100+)'' \<and> fl_ge (Finite 100) (Finite 100)
   \<and> \<not> fl_lt (Finite 100) (Finite 5)"
  using categorize_value_tiers [of "Finite 100"] by (simp add: fl_ge_def fl_le_def)

text \<open>
  C5, as stated, fails: the market value NaN (the CSV text \<open>nan\<close>) is classified
  Minimal, and it is not below 5.
\<close>

theorem categorize_value_nan:
  "categorize_value NaN = ''Minimal Value (<$5)'' \<and> \<not> fl_lt NaN (Finite 5)"
  by (simp add: categorize_value_def fl_ge_def fl_le_def)

section \<open>Eras\<close>




section \<open>Searching by team and minimum value\<close>

text \<open>
  C7, as the code behaves: over a collection in which every card has a team and no market
  value is NaN, \<open>advanced_search\<close> with the criteria team "Cowboys" and minimum value
  10, and no other, returns the cards of the collection, in its order, whose lower-cased
  team contains "cowboys" and whose market value is at least 10. (\<open>str.lower\<close> turns
  "Cowboys" into "cowboys".)
\<close>

theorem advanced_search_cowboys_min_value:
  assumes "str_lower ''Cowboys'' = ''cowboys''"
    and "\<forall>c\<in>set cards. team c \<noteq> None"
    and "\<forall>c\<in>set cards. market_value c \<noteq> NaN"
  shows "advanced_search str_lower cards
      (no_criteria\<lparr>kw_team := Some ''Cowboys'', kw_min_value := Some (Finite 10)\<rparr>)
     = Inr (filter (\<lambda>c. (\<exists>t. team c = Some t \<and> str_in ''cowboys'' (str_lower t))
                        \<and> fl_ge (market_value c) (Finite 10)) cards)"
proof -
  have nr: "\<not> raises (no_criteria\<lparr>kw_team := Some ''Cowboys'', kw_min_value := Some (Finite 10)\<rparr>) cards"
    using assms(2) by (simp add: raises_def no_criteria_def)
  have "matches str_lower (no_criteria\<lparr>kw_team := Some ''Cowboys'', kw_min_value := Some (Finite 10)\<rparr>) c
      = ((\<exists>t. team c = Some t \<and> str_in ''cowboys'' (str_lower t))
          \<and> fl_ge (market_value c) (Finite 10))" if "c \<in> set cards" for c
  proof -
    have "market_value c \<noteq> NaN" using that assms(3) by blast
    then have "(\<not> fl_lt (market_value c) (Finite 10)) = fl_ge (market_value c) (Finite 10)"
      by (simp add: fl_ge_def fl_le_def)
    then show ?thesis
      by (auto simp: matches_def no_criteria_def value_keeps_def assms(1) split: option.splits)
  qed
  then have "filter (matches str_lower (no_criteria\<lparr>kw_team := Some ''Cowboys'', kw_min_value := Some (Finite 10)\<rparr>)) cards
      = filter (\<lambda>c. (\<exists>t. team c = Some t \<and> str_in ''cowboys'' (str_lower t))
                        \<and> fl_ge (market_value c) (Finite 10)) cards"
    by (intro filter_cong[OF refl])
  with nr show ?thesis
    by (simp only: advanced_search_filter if_False)
qed

theorem advanced_search_cowboys_min_value_witness:
  "filter (\<lambda>c. (\<exists>t. team c = Some t \<and> str_in ''cowboys'' (ascii_lower t))
                 \<and> fl_ge (market_value c) (Finite 10))
      [card_A\<lparr>team := Some ''Dallas Cowboys''\<rparr>,
       card_B\<lparr>team := Some ''DALLAS COWBOYS'', market_value := Finite 5\<rparr>,
       card_C, card_B\<lparr>team := Some ''cowboys''\<rparr>]
     = [card_A\<lparr>team := Some ''Dallas Cowboys''\<rparr>, card_B\<lparr>team := Some ''cowboys''\<rparr>]"
proof -
  let ?cs = "[card_A\<lparr>team := Some ''Dallas Cowboys''\<rparr>,
       card_B\<lparr>team := Some ''DALLAS COWBOYS'', market_value := Finite 5\<rparr>,
       card_C, card_B\<lparr>team := Some ''cowboys''\<rparr>]"
  have l: "ascii_lower ''Cowboys'' = ''cowboys''"
    by code_simp
  have t: "\<forall>c\<in>set ?cs. team c \<noteq> None"
    by (simp add: card_C_def)
  have v: "\<forall>c\<in>set ?cs. market_value c \<noteq> NaN"
    by (simp add: card_A_def card_B_def card_C_def)
  have "advanced_search ascii_lower ?cs
      (no_criteria\<lparr>kw_team := Some ''Cowboys'', kw_min_value := Some (Finite 10)\<rparr>)
     = Inr [card_A\<lparr>team := Some ''Dallas Cowboys''\<rparr>, card_B\<lparr>team := Some ''cowboys''\<rparr>]"
    by code_simp
  with advanced_search_cowboys_min_value [of ascii_lower ?cs, OF l t v]
  show ?thesis
    by simp
qed

text \<open>
  C7, as stated, fails: a Dallas Cowboys card whose market value is NaN is returned,
  though its value is not at least 10; and over a card with no team the search raises
  AttributeError and returns nothing.
\<close>

theorem advanced_search_cowboys_nan_and_none:
  "advanced_search ascii_lower [card_A\<lparr>team := Some ''Dallas Cowboys'', market_value := NaN\<rparr>]
      (no_criteria\<lparr>kw_team := Some ''Cowboys'', kw_min_value := Some (Finite 10)\<rparr>)
     = Inr [card_A\<lparr>team := Some ''Dallas Cowboys'', market_value := NaN\<rparr>]
   \<and> \<not> fl_ge (market_value (card_A\<lparr>team := Some ''Dallas Cowboys'', market_value := NaN\<rparr>)) (Finite 10)
   \<and> advanced_search ascii_lower [card_A\<lparr>team := None\<rparr>]
      (no_criteria\<lparr>kw_team := Some ''Cowboys'', kw_min_value := Some (Finite 10)\<rparr>)
     = Inl AttributeError"
proof -
  have "advanced_search ascii_lower [card_A\<lparr>team := Some ''Dallas Cowboys'', market_value := NaN\<rparr>]
      (no_criteria\<lparr>kw_team := Some ''Cowboys'', kw_min_value := Some (Finite 10)\<rparr>)
     = Inr [card_A\<lparr>team := Some ''Dallas Cowboys'', market_value := NaN\<rparr>]"
    by code_simp
  moreover have "advanced_search ascii_lower [card_A\<lparr>team := None\<rparr>]
      (no_criteria\<lparr>kw_team := Some ''Cowboys'', kw_min_value := Some (Finite 10)\<rparr>)
     = Inl AttributeError"
    by code_simp
  ultimately show ?thesis
    by (simp add: fl_ge_def fl_le_def)
qed

section \<open>Searching with no criteria\<close>

text \<open>
  C8: \<open>advanced_search\<close> with no criteria at all returns the collection itself: the
  same elements in the same order.
\<close>

theorem advanced_search_no_criteria: "advanced_search str_lower cards no_criteria = Inr cards"
  by (simp add: advanced_search_def no_criteria_def and_then_def)

theorem advanced_search_no_criteria_witness:
  "advanced_search ascii_lower [card_C, card_A, card_B] no_criteria = Inr [card_C, card_A, card_B]"
  using advanced_search_no_criteria [of ascii_lower "[card_C, card_A, card_B]"] .

section \<open>Stability of the sort by value\<close>

text \<open>
  C9, as the code behaves: when no market value of the input is NaN, sorting by value, in
  either direction, returns a list that keeps the cards of any one market value in the
  order they had in the input; so any two cards \<open>a\<close> and \<open>b\<close> of equal market value
  occur after the sort in the same relative order as before.
\<close>

theorem sort_results_value_stable:
  assumes "\<forall>c\<in>set xs. market_value c \<noteq> NaN"
  shows "\<exists>ys. sort_results str_lower xs ''value'' d = Inr ys
     \<and> filter (\<lambda>c. market_value c = v) ys = filter (\<lambda>c. market_value c = v) xs
     \<and> (market_value a = market_value b \<longrightarrow>
          filter (\<lambda>c. c = a \<or> c = b) ys = filter (\<lambda>c. c = a \<or> c = b) xs)"
proof -
  let ?kvs = "map (\<lambda>x. (market_value x, x)) xs"
  let ?res = "list_sort fl_lt d ?kvs"
  let ?ys = "map snd ?res"
  have sr: "sort_results str_lower xs ''value'' d = Inr ?ys"
    by (simp add: sort_results_def)
  have "NaN \<notin> fst ` set ?kvs"
    using assms by (auto simp: image_iff)
  then have ord: "ordered_keys fl_lt (fst ` set ?kvs)"
    by (rule fl_lt_ordered)
  have keys: "fst kv = market_value (snd kv)" if "kv \<in> set ?res" for kv
  proof -
    have "kv \<in> set ?kvs" using that list_sort_set[OF ord, of d] by simp
    then show ?thesis by auto
  qed
  have st: "filter (\<lambda>c. market_value c = w) ?ys = filter (\<lambda>c. market_value c = w) xs" for w
  proof -
    have "filter (\<lambda>c. market_value c = w) ?ys
        = map snd (filter (\<lambda>kv. market_value (snd kv) = w) ?res)"
      by (simp add: filter_map comp_def)
    also have "filter (\<lambda>kv. market_value (snd kv) = w) ?res = filter (\<lambda>kv. fst kv = w) ?res"
      using keys by (intro filter_cong[OF refl]) simp
    also have "\<dots> = filter (\<lambda>kv. fst kv = w) ?kvs"
      using ord by (rule list_sort_stable)
    also have "map snd \<dots> = filter (\<lambda>c. market_value c = w) xs"
      by (simp add: filter_map comp_def)
    finally show ?thesis .
  qed
  have pair: "filter (\<lambda>c. c = a \<or> c = b) ?ys = filter (\<lambda>c. c = a \<or> c = b) xs"
    if eq: "market_value a = market_value b"
  proof -
    have "filter (\<lambda>c. c = a \<or> c = b) zs
        = filter (\<lambda>c. c = a \<or> c = b) (filter (\<lambda>c. market_value c = market_value a) zs)" for zs
      unfolding filter_filter using eq by (intro filter_cong) auto
    then have fa: "\<And>zs. filter (\<lambda>c. c = a \<or> c = b) zs
        = filter (\<lambda>c. c = a \<or> c = b) (filter (\<lambda>c. market_value c = market_value a) zs)" .
    have "filter (\<lambda>c. c = a \<or> c = b) ?ys
        = filter (\<lambda>c. c = a \<or> c = b) (filter (\<lambda>c. market_value c = market_value a) ?ys)"
      by (rule fa)
    also have "\<dots> = filter (\<lambda>c. c = a \<or> c = b) (filter (\<lambda>c. market_value c = market_value a) xs)"
      by (simp only: st)
    also have "\<dots> = filter (\<lambda>c. c = a \<or> c = b) xs"
      by (rule fa[symmetric])
    finally show ?thesis .
  qed
  show ?thesis
  proof (intro exI[of _ ?ys] conjI impI)
    show "sort_results str_lower xs ''value'' d = Inr ?ys" by (rule sr)
    show "filter (\<lambda>c. market_value c = v) ?ys = filter (\<lambda>c. market_value c = v) xs" by (rule st)
    show "filter (\<lambda>c. c = a \<or> c = b) ?ys = filter (\<lambda>c. c = a \<or> c = b) xs"
      if "market_value a = market_value b" using that by (rule pair)
  qed
qed

theorem sort_results_value_stable_witness:
  "filter (\<lambda>c. c = card_A\<lparr>market_value := Finite 30\<rparr> \<or> c = card_B)
     [card_A, card_A\<lparr>market_value := Finite 30\<rparr>, card_B, card_C]
   = filter (\<lambda>c. c = card_A\<lparr>market_value := Finite 30\<rparr> \<or> c = card_B)
       [card_C, card_A\<lparr>market_value := Finite 30\<rparr>, card_A, card_B]"
proof -
  let ?xs = "[card_C, card_A\<lparr>market_value := Finite 30\<rparr>, card_A, card_B]"
  let ?P = "\<lambda>c. c = card_A\<lparr>market_value := Finite 30\<rparr> \<or> c = card_B"
  have nn: "\<forall>c\<in>set ?xs. market_value c \<noteq> NaN"
    by (simp add: card_A_def card_B_def card_C_def)
  have eq: "market_value (card_A\<lparr>market_value := Finite 30\<rparr>) = market_value card_B"
    by (simp add: card_B_def)
  have sr: "sort_results ascii_lower ?xs ''value'' True
      = Inr [card_A, card_A\<lparr>market_value := Finite 30\<rparr>, card_B, card_C]"
    by code_simp
  from sort_results_value_stable [OF nn, of ascii_lower True "Finite 30"
      "card_A\<lparr>market_value := Finite 30\<rparr>" card_B]
  obtain ys where ys: "sort_results ascii_lower ?xs ''value'' True = Inr ys"
    and st: "market_value (card_A\<lparr>market_value := Finite 30\<rparr>) = market_value card_B
      \<longrightarrow> filter ?P ys = filter ?P ?xs"
    by blast
  from ys sr have "ys = [card_A, card_A\<lparr>market_value := Finite 30\<rparr>, card_B, card_C]"
    by simp
  moreover from st eq have "filter ?P ys = filter ?P ?xs"
    by (rule mp)
  ultimately show ?thesis
    by (simp only:)
qed

text \<open>
  C9, as stated, fails: of seven cards with the values 1, 1, NaN, 1, 1, 1, 5, sorted by
  value in descending order, the second comes out before the first, though both have
  the value 1.
\<close>

theorem sort_results_value_nan_unstable:
  "market_value (valued ''0'' (Finite 1)) = market_value (valued ''1'' (Finite 1))
   \<and> sort_results ascii_lower
       [valued ''0'' (Finite 1), valued ''1'' (Finite 1), valued ''2'' NaN, valued ''3'' (Finite 1),
        valued ''4'' (Finite 1), valued ''5'' (Finite 1), valued ''6'' (Finite 5)] ''value'' True
     = Inr [valued ''1'' (Finite 1), valued ''2'' NaN, valued ''6'' (Finite 5),
            valued ''0'' (Finite 1), valued ''3'' (Finite 1), valued ''4'' (Finite 1),
            valued ''5'' (Finite 1)]"
proof -
  have "sort_results ascii_lower
       [valued ''0'' (Finite 1), valued ''1'' (Finite 1), valued ''2'' NaN, valued ''3'' (Finite 1),
        valued ''4'' (Finite 1), valued ''5'' (Finite 1), valued ''6'' (Finite 5)] ''value'' True
     = Inr [valued ''1'' (Finite 1), valued ''2'' NaN, valued ''6'' (Finite 5),
            valued ''0'' (Finite 1), valued ''3'' (Finite 1), valued ''4'' (Finite 1),
            valued ''5'' (Finite 1)]"
    by code_simp
  then show ?thesis
    by (simp add: valued_def)
qed

section \<open>Searching by year with no parameter\<close>

text \<open>
  C10: \<open>search_by_year\<close> with no exact year and no bound returns the empty sequence,
  whatever the collection.
\<close>

theorem search_by_year_no_parameter: "search_by_year cards None None None = []"
  by (simp add: search_by_year_def year_keeps_def)

theorem search_by_year_no_parameter_witness:
  "search_by_year [card_A, card_B, card_C] None None None = []"
  using search_by_year_no_parameter [of "[card_A, card_B, card_C]"] .

end
